theory Spec2Isabelle
  imports Main "HOL-Library.Multiset" "HOL-Library.Word"
begin

section \<open>DupScan: duplicate\_file\_report.py\<close>

text \<open>
  The program walks two folders, fingerprints every file and writes a styled sheet of all
  files.  A Python \<open>str\<close> is modelled as a \<^typ>\<open>string\<close>, one list element per
  character (code points below 256); a Python \<open>bytes\<close> value is a list of 8-bit words.
  Exceptions are values of the type \<open>error\<close>, returned on the left of a sum.
\<close>

datatype error =
    ValueError
  | IndexError
  | FileNotFoundError
  | IsADirectoryError
  | PermissionError

type_synonym bytes = "8 word list"

subsection \<open>String primitives of the standard library\<close>

text \<open>\<open>str.lower()\<close> on code points below 256: the letters A--Z and the Latin-1 capitals
  (192--222 without the multiplication sign 215) move up by 32, every other character stays.\<close>

definition char_lower :: "char \<Rightarrow> char" where
  "char_lower c =
     (let n = (of_char c :: nat) in
      if (65 \<le> n \<and> n \<le> 90) \<or> (192 \<le> n \<and> n \<le> 222 \<and> n \<noteq> 215)
      then char_of (n + 32) else c)"

definition lower :: "string \<Rightarrow> string" where
  "lower s = map char_lower s"

text \<open>\<open>str.rfind(c)\<close> for a one-character needle: the highest index holding \<open>c\<close>, or \<open>-1\<close>.\<close>

fun rfind_from :: "string \<Rightarrow> char \<Rightarrow> int \<Rightarrow> int" where
  "rfind_from [] c i = -1"
| "rfind_from (x # xs) c i =
     (let r = rfind_from xs c (i + 1) in
      if r \<noteq> -1 then r else if x = c then i else -1)"

definition rfind :: "string \<Rightarrow> char \<Rightarrow> int" where
  "rfind s c = rfind_from s c 0"

text \<open>The slices \<open>p[:i]\<close>, \<open>p[i:]\<close> and \<open>p[i:j]\<close> for indices that are not negative.\<close>

definition slice_to :: "string \<Rightarrow> int \<Rightarrow> string" where
  "slice_to p i = take (nat i) p"

definition slice_from :: "string \<Rightarrow> int \<Rightarrow> string" where
  "slice_from p i = drop (nat i) p"

definition slice :: "string \<Rightarrow> int \<Rightarrow> int \<Rightarrow> string" where
  "slice p i j = take (nat j - nat i) (drop (nat i) p)"

text \<open>
  \<open>os.path.splitext\<close> (posixpath, separator \<open>/\<close>, no alternative separator, extension
  separator \<open>.\<close>), as \<open>genericpath._splitext\<close> has it:
  \<^verbatim>\<open>
    sepIndex = p.rfind(sep)
    dotIndex = p.rfind(extsep)
    if dotIndex > sepIndex:
        # skip all leading dots
        filenameIndex = sepIndex + 1
        while filenameIndex < dotIndex:
            if p[filenameIndex:filenameIndex+1] != extsep:
                return p[:dotIndex], p[dotIndex:]
            filenameIndex += 1
    return p, p[:0]
  \<close>
\<close>

function splitext_loop :: "string \<Rightarrow> int \<Rightarrow> int \<Rightarrow> string \<times> string" where
  "splitext_loop p filenameIndex dotIndex =
     (if filenameIndex < dotIndex then
        (if slice p filenameIndex (filenameIndex + 1) \<noteq> ''.''
         then (slice_to p dotIndex, slice_from p dotIndex)
         else splitext_loop p (filenameIndex + 1) dotIndex)
      else (p, slice_to p 0))"
  by pat_completeness auto
termination
  by (relation "measure (\<lambda>(p, i, d). nat (d - i))") auto

declare splitext_loop.simps [simp del]

definition splitext :: "string \<Rightarrow> string \<times> string" where
  "splitext p =
     (let sepIndex = rfind p CHR ''/'';
          dotIndex = rfind p CHR ''.''
      in if dotIndex > sepIndex then splitext_loop p (sepIndex + 1) dotIndex
         else (p, slice_to p 0))"

text \<open>\<open>os.path.basename\<close> (posixpath): \<open>i = p.rfind('/') + 1; return p[i:]\<close>.\<close>

definition basename :: "string \<Rightarrow> string" where
  "basename p = slice_from p (rfind p CHR ''/'' + 1)"

text \<open>Line 32: \<open>os.path.splitext(file)[1].lower()\<close>.\<close>

definition file_extension :: "string \<Rightarrow> string" where
  "file_extension file = lower (snd (splitext file))"

text \<open>The extension as the specification words it: the part of the name from its last
  full stop on, lowercased, and the empty string when the name has no full stop.\<close>

definition extension_by_last_dot :: "string \<Rightarrow> string" where
  "extension_by_last_dot name =
     (if CHR ''.'' \<in> set name then lower (slice_from name (rfind name CHR ''.'')) else '''')"

subsection \<open>The form-name pattern\<close>

text \<open>
  \<open>re.match(r"^\([A-Za-z0-9]+\)", filename)\<close>.  The pattern is a sequence of items: a
  literal character, or a character class under \<open>+\<close>.  \<open>re_match\<close> returns the
  remainders of the subject after every way of matching the pattern at its start, the
  greedy one first; \<open>re.match\<close> returns a match object exactly when there is one.  The
  anchor \<open>^\<close> holds at the start, which is the only place \<open>re.match\<close> tries.
\<close>

datatype re_item = Lit char | Class_Plus "(char \<times> char) list"

definition in_class :: "(char \<times> char) list \<Rightarrow> char \<Rightarrow> bool" where
  "in_class ranges c =
     list_ex (\<lambda>(lo, hi). (of_char lo :: nat) \<le> of_char c \<and> (of_char c :: nat) \<le> of_char hi) ranges"

fun plus_rests :: "(char \<times> char) list \<Rightarrow> string \<Rightarrow> string list" where
  "plus_rests ranges [] = []"
| "plus_rests ranges (x # xs) =
     (if in_class ranges x then plus_rests ranges xs @ [xs] else [])"

fun re_match :: "re_item list \<Rightarrow> string \<Rightarrow> string list" where
  "re_match [] s = [s]"
| "re_match (Lit c # r) s =
     (case s of [] \<Rightarrow> [] | x # xs \<Rightarrow> if x = c then re_match r xs else [])"
| "re_match (Class_Plus ranges # r) s = concat (map (re_match r) (plus_rests ranges s))"

definition alnum_ranges :: "(char \<times> char) list" where
  "alnum_ranges = [(CHR ''A'', CHR ''Z''), (CHR ''a'', CHR ''z''), (CHR ''0'', CHR ''9'')]"

definition form_pattern :: "re_item list" where
  "form_pattern = [Lit CHR ''('', Class_Plus alnum_ranges, Lit CHR '')'']"

definition is_form_type :: "string \<Rightarrow> string" where
  "is_form_type filename =
     (let match = re_match form_pattern filename
      in if match \<noteq> [] then ''Form(maybe)'' else '''')"


subsection \<open>The file system and \<open>os.walk\<close>\<close>

text \<open>
  A file carries a flag saying whether it may be read, and its bytes; a directory carries
  its entries in listing order.  A path is the list of its components below the working
  directory, and \<open>os.path.join(root, file)\<close> adds one component.  Symbolic links and
  unreadable directories are not modelled.
\<close>

datatype node = File bool bytes | Dir "(string \<times> node) list"

type_synonym path = "string list"

fun lookup :: "node \<Rightarrow> path \<Rightarrow> node option" where
  "lookup n [] = Some n"
| "lookup (File r bs) (x # p) = None"
| "lookup (Dir es) (x # p) = (case map_of es x of None \<Rightarrow> None | Some n \<Rightarrow> lookup n p)"

fun is_dir :: "node \<Rightarrow> bool" where
  "is_dir (Dir es) = True"
| "is_dir (File r bs) = False"

text \<open>
  \<open>os.walk(top)\<close> with its default \<open>onerror=None\<close>: when \<open>scandir(top)\<close> raises (the
  path is missing, or is not a directory) the error is dropped and nothing is yielded.
  Otherwise it yields \<open>(top, dirs, nondirs)\<close> and then walks each sub-directory.
\<close>

fun walk :: "path \<Rightarrow> node \<Rightarrow> (path \<times> string list \<times> string list) list" where
  "walk top_path (File r bs) = []"
| "walk top_path (Dir es) =
     (top_path, map fst (filter (\<lambda>e. is_dir (snd e)) es), map fst (filter (\<lambda>e. \<not> is_dir (snd e)) es))
     # concat (map (\<lambda>e. walk (top_path @ [fst e]) (snd e)) (filter (\<lambda>e. is_dir (snd e)) es))"

definition os_walk :: "node \<Rightarrow> path \<Rightarrow> (path \<times> string list \<times> string list) list" where
  "os_walk fs top_path = (case lookup fs top_path of None \<Rightarrow> [] | Some n \<Rightarrow> walk top_path n)"

text \<open>\<open>os.path.getsize\<close>: the byte count from the file's metadata (for a directory the
  size of its own entry, which this program never asks for; it is 0 here).\<close>

definition getsize :: "node \<Rightarrow> path \<Rightarrow> error + int" where
  "getsize fs p =
     (case lookup fs p of
        None \<Rightarrow> Inl FileNotFoundError
      | Some (File r bs) \<Rightarrow> Inr (int (length bs))
      | Some (Dir es) \<Rightarrow> Inr 0)"

text \<open>\<open>open(file_path, 'rb')\<close>: the bytes still to be read, or the error raised.\<close>

definition open_rb :: "node \<Rightarrow> path \<Rightarrow> error + bytes" where
  "open_rb fs p =
     (case lookup fs p of
        None \<Rightarrow> Inl FileNotFoundError
      | Some (Dir es) \<Rightarrow> Inl IsADirectoryError
      | Some (File r bs) \<Rightarrow> if r then Inr bs else Inl PermissionError)"

subsection \<open>calculate\_full\_hash\<close>

text \<open>
  The hash object of \<open>hashlib.md5()\<close> is the byte string fed to it so far (\<open>update(a)\<close>
  then \<open>update(b)\<close> is \<open>update(a + b)\<close>), and \<open>hexdigest()\<close> applies the digest function to
  it.  The digest function itself belongs to the library and is a parameter, \<open>md5\<close>.
  The loop \<open>while chunk := f.read(chunk_size)\<close> stops at the first empty chunk.
\<close>

function read_chunks :: "nat \<Rightarrow> bytes \<Rightarrow> bytes \<Rightarrow> bytes" where
  "read_chunks chunk_size f hash_algo =
     (let chunk = take chunk_size f in
      if chunk \<noteq> [] then read_chunks chunk_size (drop chunk_size f) (hash_algo @ chunk)
      else hash_algo)"
  by pat_completeness auto
termination
  by (relation "measure (\<lambda>(n, f, h). length f)") auto

declare read_chunks.simps [simp del]

definition default_chunk_size :: nat where
  "default_chunk_size = 1024 * 1024"

definition calculate_full_hash :: "(bytes \<Rightarrow> string) \<Rightarrow> node \<Rightarrow> path \<Rightarrow> nat \<Rightarrow> error + string" where
  "calculate_full_hash md5 fs file_path chunk_size =
     (case open_rb fs file_path of
        Inl e \<Rightarrow> Inl e
      | Inr f \<Rightarrow> Inr (md5 (read_chunks chunk_size f [])))"

subsection \<open>list\_all\_files\<close>

text \<open>One tuple of the list: file name, hash, type, size, folder label, content type.\<close>

record file_row =
  File_Name :: string
  File_Hash :: string
  File_Type :: string
  File_Size :: int
  Folder :: string
  Content_Type :: string

definition file_details :: "(bytes \<Rightarrow> string) \<Rightarrow> node \<Rightarrow> string \<Rightarrow> path \<Rightarrow> string \<Rightarrow> error + file_row" where
  "file_details md5 fs folder_label root file =
     (let file_path = root @ [file] in
      case getsize fs file_path of
        Inl e \<Rightarrow> Inl e
      | Inr file_size \<Rightarrow>
          (case calculate_full_hash md5 fs file_path default_chunk_size of
             Inl e \<Rightarrow> Inl e
           | Inr file_hash \<Rightarrow>
               Inr \<lparr>File_Name = basename file, File_Hash = file_hash,
                    File_Type = file_extension file, File_Size = file_size,
                    Folder = folder_label, Content_Type = is_form_type file\<rparr>))"

text \<open>The inner loop \<open>for file in files\<close> and the outer loop over the walk, each with the
  list built so far; the first exception ends both.\<close>

fun scan_files :: "(bytes \<Rightarrow> string) \<Rightarrow> node \<Rightarrow> string \<Rightarrow> path \<Rightarrow> string list \<Rightarrow> file_row list
    \<Rightarrow> error + file_row list" where
  "scan_files md5 fs folder_label root [] file_list = Inr file_list"
| "scan_files md5 fs folder_label root (file # files) file_list =
     (case file_details md5 fs folder_label root file of
        Inl e \<Rightarrow> Inl e
      | Inr row \<Rightarrow> scan_files md5 fs folder_label root files (file_list @ [row]))"

fun scan_walk :: "(bytes \<Rightarrow> string) \<Rightarrow> node \<Rightarrow> string \<Rightarrow> (path \<times> string list \<times> string list) list
    \<Rightarrow> file_row list \<Rightarrow> error + file_row list" where
  "scan_walk md5 fs folder_label [] file_list = Inr file_list"
| "scan_walk md5 fs folder_label ((root, dirs, files) # rest) file_list =
     (case scan_files md5 fs folder_label root files file_list of
        Inl e \<Rightarrow> Inl e
      | Inr file_list' \<Rightarrow> scan_walk md5 fs folder_label rest file_list')"

definition list_all_files :: "(bytes \<Rightarrow> string) \<Rightarrow> node \<Rightarrow> path \<Rightarrow> string \<Rightarrow> error + file_row list" where
  "list_all_files md5 fs folder_path folder_label =
     scan_walk md5 fs folder_label (os_walk fs folder_path) []"


subsection \<open>The worksheet\<close>

text \<open>
  A cell holds a value and its styles: the colour of a solid \<open>PatternFill\<close> (if any), the
  bold flag of its font, and the horizontal and vertical setting of its \<open>Alignment\<close> (if
  any).  A worksheet is its title, its rows of cells from row 1 on, and the widths set in
  \<open>column_dimensions\<close>, keyed by column letter.  Cell values are stored as they are
  given; the sheet library's own checks on cell text are not part of this model.
\<close>

datatype cell_value = NoneValue | Str string | Num int

record cell =
  cvalue :: cell_value
  fill :: "string option"
  font_bold :: bool
  alignment :: "(string \<times> string) option"

record worksheet =
  title :: string
  rows :: "cell list list"
  column_width :: "string \<rightharpoonup> nat"

definition new_cell :: "cell_value \<Rightarrow> cell" where
  "new_cell v = \<lparr>cvalue = v, fill = None, font_bold = False, alignment = None\<rparr>"

definition new_worksheet :: worksheet where
  "new_worksheet = \<lparr>title = ''Sheet'', rows = [], column_width = Map.empty\<rparr>"

text \<open>\<open>str(value)\<close> for the values a cell holds.\<close>

function digits :: "nat \<Rightarrow> string" where
  "digits n = (if n < 10 then [char_of (48 + n)] else digits (n div 10) @ [char_of (48 + n mod 10)])"
  by pat_completeness auto
termination
  by (relation "measure id") auto

declare digits.simps [simp del]

definition str_int :: "int \<Rightarrow> string" where
  "str_int i = (if i < 0 then CHR ''-'' # digits (nat (- i)) else digits (nat i))"

fun py_str :: "cell_value \<Rightarrow> string" where
  "py_str NoneValue = ''None''"
| "py_str (Str s) = s"
| "py_str (Num i) = str_int i"

text \<open>\<open>ws.append(values)\<close> writes the values into a new row below the last one.\<close>

definition ws_append :: "cell_value list \<Rightarrow> worksheet \<Rightarrow> worksheet" where
  "ws_append vs ws = ws\<lparr>rows := rows ws @ [map new_cell vs]\<rparr>"

definition max_row :: "worksheet \<Rightarrow> nat" where
  "max_row ws = max 1 (length (rows ws))"

definition max_column :: "worksheet \<Rightarrow> nat" where
  "max_column ws = fold max (map length (rows ws)) 1"

text \<open>
  Reaching a cell that does not exist yet creates it, empty: the rows are padded to the
  row asked for and the row to the column asked for.  Rows and columns count from 1.
\<close>

definition pad :: "nat \<Rightarrow> 'a \<Rightarrow> 'a list \<Rightarrow> 'a list" where
  "pad n x xs = xs @ replicate (n - length xs) x"

definition update_cell :: "nat \<Rightarrow> nat \<Rightarrow> (cell \<Rightarrow> cell) \<Rightarrow> worksheet \<Rightarrow> worksheet" where
  "update_cell r c f ws =
     (let rs = pad r [] (rows ws);
          cells = pad c (new_cell NoneValue) (rs ! (r - 1))
      in ws\<lparr>rows := rs[r - 1 := cells[c - 1 := f (cells ! (c - 1))]]\<rparr>)"

text \<open>\<open>for cell in ws[r]: ...\<close> visits the cells of row \<open>r\<close> in every column of the sheet.\<close>

definition update_row :: "nat \<Rightarrow> (cell \<Rightarrow> cell) \<Rightarrow> worksheet \<Rightarrow> worksheet" where
  "update_row r f ws =
     (let rs = pad r [] (rows ws);
          cells = pad (max_column ws) (new_cell NoneValue) (rs ! (r - 1))
      in ws\<lparr>rows := rs[r - 1 := map f cells]\<rparr>)"

text \<open>\<open>ws.columns\<close>: no column for a sheet without rows; otherwise one tuple of cells per
  column up to the widest row, each paired here with its column number.\<close>

definition columns :: "worksheet \<Rightarrow> (nat \<times> cell list) list" where
  "columns ws =
     (if rows ws = [] then []
      else map (\<lambda>c. (c + 1, map (\<lambda>cells. pad (max_column ws) (new_cell NoneValue) cells ! c) (rows ws)))
             [0..<max_column ws])"

text \<open>\<open>column_letter\<close>: A, B, ..., Z, AA, AB, ... for the columns 1, 2, ...\<close>

function column_letter :: "nat \<Rightarrow> string" where
  "column_letter n =
     (if n = 0 then [] else column_letter ((n - 1) div 26) @ [char_of (65 + (n - 1) mod 26)])"
  by pat_completeness auto
termination
  by (relation "measure id") auto

declare column_letter.simps [simp del]

text \<open>\<open>max(...)\<close> over a generator raises \<open>ValueError\<close> when there is nothing to take.\<close>

fun py_max :: "nat list \<Rightarrow> error + nat" where
  "py_max [] = Inl ValueError"
| "py_max (x # xs) = Inr (fold max xs x)"

subsection \<open>generate\_styled\_excel\_report\<close>

text \<open>
  \<open>DataFrame.sort_values(by="File Size", inplace=True)\<close> is called with the default
  \<open>kind='quicksort'\<close>.  The library promises an ascending order of the key for it and
  keeps every row; it names only \<open>'mergesort'\<close> and \<open>'stable'\<close> as stable.  The sorting
  routine is therefore a parameter, \<open>sort_values\<close>, of which only this contract is known.
\<close>

definition sort_values_contract :: "(file_row list \<Rightarrow> file_row list) \<Rightarrow> bool" where
  "sort_values_contract sort_values \<longleftrightarrow>
     (\<forall>df. mset (sort_values df) = mset df \<and> sorted (map File_Size (sort_values df)))"

text \<open>The names bound while the function runs: the caller's list object, the data frame,
  the counts, the sheet, and the files saved on disk.\<close>

record env =
  file_list :: "file_row list"
  df :: "file_row list"
  hash_counts :: "cell_value \<rightharpoonup> nat"
  ws :: worksheet
  disk :: "string \<rightharpoonup> worksheet"

text \<open>One row of the data frame as \<open>dataframe_to_rows\<close> yields it, and the column
  \<open>df["File Hash"]\<close>.\<close>

definition row_values :: "file_row \<Rightarrow> cell_value list" where
  "row_values r =
     [Str (File_Name r), Str (File_Hash r), Str (File_Type r), Num (File_Size r),
      Str (Folder r), Str (Content_Type r)]"

definition dataframe_to_rows :: "file_row list \<Rightarrow> cell_value list list" where
  "dataframe_to_rows d = map row_values d"

definition column_File_Hash :: "file_row list \<Rightarrow> cell_value list" where
  "column_File_Hash d = map (\<lambda>r. Str (File_Hash r)) d"

text \<open>\<open>defaultdict(int)\<close>: a missing key reads as 0.\<close>

definition dd_get :: "('k \<rightharpoonup> nat) \<Rightarrow> 'k \<Rightarrow> nat" where
  "dd_get m k = (case m k of None \<Rightarrow> 0 | Some n \<Rightarrow> n)"

definition count_hash :: "'k \<Rightarrow> ('k \<rightharpoonup> nat) \<Rightarrow> ('k \<rightharpoonup> nat)" where
  "count_hash file_hash m = m(file_hash \<mapsto> dd_get m file_hash + 1)"

definition header_fill :: string where "header_fill = ''FFD700''"
definition folder1_fill :: string where "folder1_fill = ''ADD8E6''"
definition folder2_fill :: string where "folder2_fill = ''FFC0CB''"
definition duplicate_hash_fill :: string where "duplicate_hash_fill = ''FFFF00''"

definition center_alignment :: "string \<times> string" where
  "center_alignment = (''center'', ''center'')"

definition headers :: "cell_value list" where
  "headers = [Str ''File Name'', Str ''File Hash'', Str ''File Type'', Str ''File Size'',
              Str ''Folder'', Str ''Content Type'']"

definition header_style :: "cell \<Rightarrow> cell" where
  "header_style c = c\<lparr>fill := Some header_fill, font_bold := True, alignment := Some center_alignment\<rparr>"

text \<open>\<open>row[i]\<close> on a Python list raises \<open>IndexError\<close> beyond its end.\<close>

definition py_nth :: "'a list \<Rightarrow> nat \<Rightarrow> error + 'a" where
  "py_nth xs i = (if i < length xs then Inr (xs ! i) else Inl IndexError)"

text \<open>The body of the loop over the data rows (lines 76--95), and the loop itself.\<close>

definition write_row :: "(cell_value \<rightharpoonup> nat) \<Rightarrow> cell_value list \<Rightarrow> worksheet \<Rightarrow> error + worksheet" where
  "write_row counts row w =
     (let w1 = ws_append row w;
          row_num = max_row w1
      in case py_nth row 4 of
           Inl err \<Rightarrow> Inl err
         | Inr folder_name \<Rightarrow>
             (case py_nth row 1 of
                Inl err \<Rightarrow> Inl err
              | Inr file_hash \<Rightarrow>
                  (let w2 = (if folder_name = Str ''Folder1''
                             then update_cell row_num 5 (\<lambda>c. c\<lparr>fill := Some folder1_fill\<rparr>) w1
                             else if folder_name = Str ''Folder2''
                             then update_cell row_num 5 (\<lambda>c. c\<lparr>fill := Some folder2_fill\<rparr>) w1
                             else w1);
                       w3 = (if dd_get counts file_hash > 1
                             then update_cell row_num 2 (\<lambda>c. c\<lparr>fill := Some duplicate_hash_fill\<rparr>) w2
                             else w2)
                   in Inr (update_row row_num (\<lambda>c. c\<lparr>alignment := Some center_alignment\<rparr>) w3))))"

fun write_rows :: "(cell_value \<rightharpoonup> nat) \<Rightarrow> cell_value list list \<Rightarrow> worksheet \<Rightarrow> error + worksheet" where
  "write_rows counts [] w = Inr w"
| "write_rows counts (row # later) w =
     (case write_row counts row w of
        Inl err \<Rightarrow> Inl err
      | Inr w' \<Rightarrow> write_rows counts later w')"

text \<open>The loop over \<open>ws.columns\<close> (lines 98--100).\<close>

fun set_widths :: "(nat \<times> cell list) list \<Rightarrow> worksheet \<Rightarrow> error + worksheet" where
  "set_widths [] w = Inr w"
| "set_widths ((n, col) # cols) w =
     (case py_max (map (\<lambda>c. length (py_str (cvalue c))) col) of
        Inl e \<Rightarrow> Inl e
      | Inr max_length \<Rightarrow>
          set_widths cols (w\<lparr>column_width := (column_width w)(column_letter n \<mapsto> max_length + 2)\<rparr>))"

definition generate_styled_excel_report ::
    "(file_row list \<Rightarrow> file_row list) \<Rightarrow> string \<Rightarrow> env \<Rightarrow> error + env" where
  "generate_styled_excel_report sort_values report_path e0 =
     (let e1 = e0\<lparr>df := file_list e0\<rparr>;
          e2 = e1\<lparr>df := sort_values (df e1)\<rparr>;
          e3 = e2\<lparr>hash_counts := fold count_hash (column_File_Hash (df e2)) Map.empty\<rparr>;
          e4 = e3\<lparr>ws := new_worksheet\<lparr>title := ''File List Report''\<rparr>\<rparr>;
          e5 = e4\<lparr>ws := update_row 1 header_style (ws_append headers (ws e4))\<rparr>
      in case write_rows (hash_counts e5) (dataframe_to_rows (df e5)) (ws e5) of
           Inl err \<Rightarrow> Inl err
         | Inr w6 \<Rightarrow>
             (case set_widths (columns w6) w6 of
                Inl err \<Rightarrow> Inl err
              | Inr w7 \<Rightarrow> Inr (e5\<lparr>ws := w7, disk := (disk e5)(report_path \<mapsto> w7)\<rparr>)))"

text \<open>The main block: both folders are listed, the lists are joined, the report is built.\<close>

definition main :: "(bytes \<Rightarrow> string) \<Rightarrow> (file_row list \<Rightarrow> file_row list) \<Rightarrow> node \<Rightarrow> env \<Rightarrow> error + env" where
  "main md5 sort_values fs e =
     (case list_all_files md5 fs [''folder1''] ''Folder1'' of
        Inl err \<Rightarrow> Inl err
      | Inr files1 \<Rightarrow>
          (case list_all_files md5 fs [''folder2''] ''Folder2'' of
             Inl err \<Rightarrow> Inl err
           | Inr files2 \<Rightarrow>
               generate_styled_excel_report sort_values ''all_files_report.xlsx''
                 (e\<lparr>file_list := files1 @ files2\<rparr>)))"

subsection \<open>Notions used in the statements\<close>

text \<open>The sixty-two alphanumeric characters of the pattern's class.\<close>

definition alnum_chars :: string where
  "alnum_chars = ''ABCDEFGHIJKLMNOPQRSTUVWXYZabcdefghijklmnopqrstuvwxyz0123456789''"

text \<open>A name with a parenthesised alphanumeric token of at least one character in front.\<close>

definition starts_with_token :: "string \<Rightarrow> bool" where
  "starts_with_token name \<longleftrightarrow>
     (\<exists>tok rest. name = ''('' @ tok @ '')'' @ rest \<and> tok \<noteq> [] \<and> set tok \<subseteq> set alnum_chars)"

text \<open>Some character other than the full stop stands between the positions \<open>i\<close> and \<open>d\<close>.\<close>

definition has_stem :: "string \<Rightarrow> nat \<Rightarrow> nat \<Rightarrow> bool" where
  "has_stem p i d \<longleftrightarrow> (\<exists>k. i \<le> k \<and> k < d \<and> p ! k \<noteq> CHR ''.'')"

text \<open>The name has a last full stop, and something other than full stops before it.\<close>

definition dotted_stem :: "string \<Rightarrow> bool" where
  "dotted_stem name \<longleftrightarrow>
     (\<exists>stem ext. name = stem @ ''.'' @ ext \<and> CHR ''.'' \<notin> set ext \<and> (\<exists>c\<in>set stem. c \<noteq> CHR ''.''))"


text \<open>The rows below the header, the styled header row, and the styled row the loop
  leaves behind for one record.\<close>

definition data_rows :: "worksheet \<Rightarrow> cell list list" where
  "data_rows w = tl (rows w)"

definition header_row :: "cell list" where
  "header_row = map (\<lambda>v. header_style (new_cell v)) headers"

definition styled :: "cell_value \<Rightarrow> string option \<Rightarrow> cell" where
  "styled v f = \<lparr>cvalue = v, fill = f, font_bold = False, alignment = Some center_alignment\<rparr>"

definition styled_row :: "(cell_value \<rightharpoonup> nat) \<Rightarrow> file_row \<Rightarrow> cell list" where
  "styled_row counts r =
     [styled (Str (File_Name r)) None,
      styled (Str (File_Hash r))
        (if dd_get counts (Str (File_Hash r)) > 1 then Some duplicate_hash_fill else None),
      styled (Str (File_Type r)) None,
      styled (Num (File_Size r)) None,
      styled (Str (Folder r))
        (if Folder r = ''Folder1'' then Some folder1_fill
         else if Folder r = ''Folder2'' then Some folder2_fill else None),
      styled (Str (Content_Type r)) None]"

text \<open>A sheet with at least one row, all rows six cells wide.\<close>

definition six_wide :: "cell list list \<Rightarrow> bool" where
  "six_wide rs \<longleftrightarrow> rs \<noteq> [] \<and> (\<forall>r\<in>set rs. length r = 6)"

text \<open>The length of the text a cell shows.\<close>

definition rendered_length :: "cell \<Rightarrow> nat" where
  "rendered_length c = length (py_str (cvalue c))"


text \<open>Two sorting routines that meet the contract of \<open>sort_values\<close>: one keeps equal
  keys in their order, the other turns them round.\<close>

definition stable_sort :: "file_row list \<Rightarrow> file_row list" where
  "stable_sort d = sort_key File_Size d"


text \<open>Closed examples: a stand-in for the library's digest (the decimal length of the
  input), a small tree of files, and a list of records.\<close>

definition stand_in_digest :: "bytes \<Rightarrow> string" where
  "stand_in_digest bs = digits (length bs)"

definition demo_fs :: node where
  "demo_fs =
     Dir [(''folder1'', Dir [(''x.txt'', File True [104, 101, 108, 108, 111]),
                            (''sub'', Dir [(''(A1)copy.TXT'', File True [104, 101, 108, 108, 111])])]),
          (''folder2'', Dir [(''y.txt'', File True [104, 101, 108, 108, 111])]),
          (''notes.txt'', File True [110])]"


definition start_env :: "file_row list \<Rightarrow> env" where
  "start_env fl = \<lparr>file_list = fl, df = [], hash_counts = Map.empty, ws = new_worksheet,
                   disk = Map.empty\<rparr>"


definition empty_roots :: node where
  "empty_roots = Dir [(''folder1'', Dir []), (''folder2'', Dir [])]"


section \<open>Properties\<close>

subsection \<open>The form-name pattern\<close>

lemma plus_rests_iff:
  "t \<in> set (plus_rests rs s) \<longleftrightarrow> (\<exists>tok. tok \<noteq> [] \<and> s = tok @ t \<and> (\<forall>c\<in>set tok. in_class rs c))"
proof (induction s)
  case Nil
  then show ?case by simp
next
  case (Cons x xs)
  show ?case
  proof (cases "in_class rs x")
    case False
    then show ?thesis by (auto simp: Cons_eq_append_conv)
  next
    case True
    show ?thesis
    proof
      assume "t \<in> set (plus_rests rs (x # xs))"
      with True have "t \<in> set (plus_rests rs xs) \<or> t = xs" by auto
      then show "\<exists>tok. tok \<noteq> [] \<and> x # xs = tok @ t \<and> (\<forall>c\<in>set tok. in_class rs c)"
      proof
        assume "t \<in> set (plus_rests rs xs)"
        with Cons.IH obtain tok where "tok \<noteq> []" "xs = tok @ t" "\<forall>c\<in>set tok. in_class rs c" by blast
        with True have "x # tok \<noteq> [] \<and> x # xs = (x # tok) @ t \<and> (\<forall>c\<in>set (x # tok). in_class rs c)" by simp
        then show ?thesis by blast
      next
        assume "t = xs"
        with True have "[x] \<noteq> [] \<and> x # xs = [x] @ t \<and> (\<forall>c\<in>set [x]. in_class rs c)" by simp
        then show ?thesis by blast
      qed
    next
      assume "\<exists>tok. tok \<noteq> [] \<and> x # xs = tok @ t \<and> (\<forall>c\<in>set tok. in_class rs c)"
      then obtain tok where tok: "tok \<noteq> []" "x # xs = tok @ t" "\<forall>c\<in>set tok. in_class rs c" by blast
      then obtain tok' where tok': "tok = x # tok'" "xs = tok' @ t" by (cases tok) auto
      show "t \<in> set (plus_rests rs (x # xs))"
      proof (cases "tok' = []")
        case True
        with tok' \<open>in_class rs x\<close> show ?thesis by simp
      next
        case False
        with tok tok' Cons.IH have "t \<in> set (plus_rests rs xs)" by auto
        with \<open>in_class rs x\<close> show ?thesis by simp
      qed
    qed
  qed
qed

lemma re_match_form:
  "re_match form_pattern s \<noteq> [] \<longleftrightarrow>
     (\<exists>tok rest. s = ''('' @ tok @ '')'' @ rest \<and> tok \<noteq> [] \<and> (\<forall>c\<in>set tok. in_class alnum_ranges c))"
proof -
  have close: "re_match [Lit CHR '')''] t \<noteq> [] \<longleftrightarrow> (\<exists>rest. t = CHR '')'' # rest)" for t
    by (cases t) auto
  show ?thesis
  proof (cases s)
    case Nil
    then show ?thesis by (simp add: form_pattern_def)
  next
    case (Cons x xs)
    show ?thesis
    proof (cases "x = CHR ''(''")
      case False
      with Cons show ?thesis by (simp add: form_pattern_def)
    next
      case True
      have "re_match form_pattern s = concat (map (re_match [Lit CHR '')'']) (plus_rests alnum_ranges xs))"
        using Cons True by (simp add: form_pattern_def)
      then have "re_match form_pattern s \<noteq> [] \<longleftrightarrow>
            (\<exists>t\<in>set (plus_rests alnum_ranges xs). re_match [Lit CHR '')''] t \<noteq> [])"
        by (simp del: re_match.simps)
      also have "\<dots> \<longleftrightarrow> (\<exists>tok rest. xs = tok @ CHR '')'' # rest \<and> tok \<noteq> [] \<and> (\<forall>c\<in>set tok. in_class alnum_ranges c))"
        unfolding close Bex_def plus_rests_iff by blast
      finally show ?thesis using Cons True by simp
    qed
  qed
qed

lemma in_class_alnum: "in_class alnum_ranges c \<longleftrightarrow> c \<in> set alnum_chars"
  by (cases c) (simp add: in_class_def alnum_ranges_def alnum_chars_def)

lemma re_match_token: "re_match form_pattern name \<noteq> [] \<longleftrightarrow> starts_with_token name"
  unfolding re_match_form starts_with_token_def by (simp add: in_class_alnum subset_iff Ball_def)

text \<open>
  C4 (amended).  The content-type hint is \<open>Form(maybe)\<close> exactly when the name begins with
  an opening parenthesis, one or more alphanumeric characters and a closing parenthesis,
  and is empty otherwise.  \<open>(AB12)invoice.pdf\<close> gives \<open>Form(maybe)\<close>,
  \<open>invoice(AB12).pdf\<close> gives the empty string, and so does \<open>()empty.txt\<close>, whose
  parentheses hold no character.
\<close>

theorem is_form_type_token:
  "is_form_type name = (if starts_with_token name then ''Form(maybe)'' else '''')
   \<and> is_form_type ''(AB12)invoice.pdf'' = ''Form(maybe)''
   \<and> is_form_type ''invoice(AB12).pdf'' = ''''
   \<and> is_form_type ''()empty.txt'' = ''''"
proof (intro conjI)
  show "is_form_type name = (if starts_with_token name then ''Form(maybe)'' else '''')"
    by (simp add: is_form_type_def re_match_token)
  show "is_form_type ''(AB12)invoice.pdf'' = ''Form(maybe)''" by code_simp
  show "is_form_type ''invoice(AB12).pdf'' = ''''" by code_simp
  show "is_form_type ''()empty.txt'' = ''''" by code_simp
qed

theorem is_form_type_token_witness:
  "starts_with_token ''(A1B2)rest-of-name.pdf''
   \<and> is_form_type ''(A1B2)rest-of-name.pdf'' = ''Form(maybe)''"
proof -
  have "''(A1B2)rest-of-name.pdf'' = ''('' @ ''A1B2'' @ '')'' @ ''rest-of-name.pdf''
      \<and> ''A1B2'' \<noteq> [] \<and> set ''A1B2'' \<subseteq> set alnum_chars"
    by (simp add: alnum_chars_def)
  then have tok: "starts_with_token ''(A1B2)rest-of-name.pdf''"
    unfolding starts_with_token_def by blast
  with is_form_type_token [of "''(A1B2)rest-of-name.pdf''"] show ?thesis by simp
qed

text \<open>The claim as it was worded gives \<open>()empty.txt\<close> the hint \<open>Form(maybe)\<close>; the
  pattern asks for at least one character between the parentheses.\<close>

theorem is_form_type_empty_parens_counterexample:
  "is_form_type ''()empty.txt'' \<noteq> ''Form(maybe)''"
  by code_simp

subsection \<open>The extension\<close>

lemma rfind_from_absent: "c \<notin> set s \<Longrightarrow> rfind_from s c i = -1"
  by (induction s arbitrary: i) auto

lemma rfind_from_last:
  "0 \<le> i \<Longrightarrow> c \<notin> set b \<Longrightarrow> rfind_from (a @ c # b) c i = i + int (length a)"
proof (induction a arbitrary: i)
  case Nil
  then show ?case by (simp add: rfind_from_absent)
next
  case (Cons x a)
  from Cons.prems have "rfind_from (a @ c # b) c (i + 1) = i + 1 + int (length a)"
    by (intro Cons.IH) auto
  with Cons.prems show ?case by (simp add: Let_def)
qed

lemma rfind_absent: "c \<notin> set s \<Longrightarrow> rfind s c = -1"
  by (simp add: rfind_def rfind_from_absent)

lemma rfind_last: "c \<notin> set b \<Longrightarrow> rfind (a @ c # b) c = int (length a)"
  by (simp add: rfind_def rfind_from_last)

lemma slice_one: "0 \<le> i \<Longrightarrow> nat i < length p \<Longrightarrow> slice p i (i + 1) = [p ! nat i]"
proof -
  assume a: "0 \<le> i" "nat i < length p"
  then have "nat (i + 1) - nat i = 1" by linarith
  with a show ?thesis
    by (simp add: slice_def take_Suc_conv_app_nth hd_drop_conv_nth take_Suc)
qed

lemma splitext_loop_result:
  "0 \<le> i \<Longrightarrow> nat d \<le> length p \<Longrightarrow>
   splitext_loop p i d =
     (if has_stem p (nat i) (nat d) then (take (nat d) p, drop (nat d) p) else (p, []))"
proof (induction p i d rule: splitext_loop.induct)
  case (1 p i d)
  show ?case
  proof (cases "i < d")
    case False
    then have "\<not> has_stem p (nat i) (nat d)" by (auto simp: has_stem_def)
    moreover from False have "splitext_loop p i d = (p, [])"
      by (subst splitext_loop.simps) (simp add: slice_to_def)
    ultimately show ?thesis by simp
  next
    case True
    with "1.prems" have lt: "nat i < length p" "nat i < nat d" by linarith+
    from "1.prems" lt have sl: "slice p i (i + 1) = [p ! nat i]" by (intro slice_one)
    show ?thesis
    proof (cases "p ! nat i = CHR ''.''")
      case False
      with lt have "has_stem p (nat i) (nat d)" unfolding has_stem_def by blast
      moreover from True False sl have "splitext_loop p i d = (take (nat d) p, drop (nat d) p)"
        by (subst splitext_loop.simps) (simp add: slice_to_def slice_from_def)
      ultimately show ?thesis by simp
    next
      case dot: True
      have step: "splitext_loop p i d = splitext_loop p (i + 1) d"
        using True dot sl by (subst splitext_loop.simps) simp
      have ih: "splitext_loop p (i + 1) d =
         (if has_stem p (nat (i + 1)) (nat d)
          then (take (nat d) p, drop (nat d) p) else (p, []))"
        using True dot sl "1.prems" by (intro "1.IH") auto
      have "has_stem p (nat (i + 1)) (nat d) \<longleftrightarrow> has_stem p (nat i) (nat d)" (is "?L \<longleftrightarrow> ?R")
      proof
        assume ?L
        then obtain k where "nat (i + 1) \<le> k" "k < nat d" "p ! k \<noteq> CHR ''.''"
          unfolding has_stem_def by blast
        moreover from this "1.prems" have "nat i \<le> k" by linarith
        ultimately show ?R unfolding has_stem_def by blast
      next
        assume ?R
        then obtain k where k: "nat i \<le> k" "k < nat d" "p ! k \<noteq> CHR ''.''"
          unfolding has_stem_def by blast
        with dot have "k \<noteq> nat i" by auto
        with k "1.prems" have "nat (i + 1) \<le> k" by linarith
        with k show ?L unfolding has_stem_def by blast
      qed
      with step ih show ?thesis by simp
    qed
  qed
qed

lemma splitext_dotted:
  assumes "CHR ''/'' \<notin> set stem" "CHR ''/'' \<notin> set ext" "CHR ''.'' \<notin> set ext"
  shows "splitext (stem @ CHR ''.'' # ext) =
     (if \<exists>c\<in>set stem. c \<noteq> CHR ''.'' then (stem, CHR ''.'' # ext) else (stem @ CHR ''.'' # ext, []))"
proof -
  let ?p = "stem @ CHR ''.'' # ext"
  have sep: "rfind ?p CHR ''/'' = -1" using assms by (simp add: rfind_absent)
  have dot: "rfind ?p CHR ''.'' = int (length stem)" using assms by (simp add: rfind_last)
  have "has_stem ?p (nat 0) (nat (int (length stem))) \<longleftrightarrow> (\<exists>c\<in>set stem. c \<noteq> CHR ''.'')"
    (is "?L \<longleftrightarrow> ?R")
  proof
    assume ?L
    then obtain k where "k < length stem" "?p ! k \<noteq> CHR ''.''"
      unfolding has_stem_def by auto
    then have "stem ! k \<in> set stem \<and> stem ! k \<noteq> CHR ''.''" by (simp add: nth_append)
    then show ?R by blast
  next
    assume ?R
    then obtain k where "k < length stem" "stem ! k \<noteq> CHR ''.''"
      by (auto simp: in_set_conv_nth)
    then have "0 \<le> k \<and> k < length stem \<and> ?p ! k \<noteq> CHR ''.''" by (simp add: nth_append)
    then show ?L unfolding has_stem_def by auto
  qed
  moreover have "splitext ?p = splitext_loop ?p 0 (int (length stem))"
    by (simp add: splitext_def sep dot)
  moreover have "splitext_loop ?p 0 (int (length stem)) =
     (if has_stem ?p (nat 0) (nat (int (length stem)))
      then (take (nat (int (length stem))) ?p, drop (nat (int (length stem))) ?p) else (?p, []))"
    by (rule splitext_loop_result) simp_all
  ultimately show ?thesis by simp
qed

lemma rfind_from_lower: "0 \<le> i \<Longrightarrow> - 1 \<le> rfind_from s c i"
  by (induction s arbitrary: i) (auto simp: Let_def)

lemma splitext_no_dot: "CHR ''.'' \<notin> set p \<Longrightarrow> splitext p = (p, [])"
proof -
  assume a: "CHR ''.'' \<notin> set p"
  have "- 1 \<le> rfind p CHR ''/''" by (simp add: rfind_def rfind_from_lower)
  with a show ?thesis by (simp add: splitext_def rfind_absent slice_to_def)
qed

text \<open>
  C5 (amended).  For a file name (no \<open>/\<close> in it), the extension recorded is the part of
  the name from its last full stop on, lowercased, when some character other than a full
  stop comes before that full stop; it is empty when the name has no full stop, and also
  when only full stops come before the last one, as in \<open>.bashrc\<close>.
  \<open>report.final.PDF\<close> gives \<open>.pdf\<close> and \<open>README\<close> gives the empty string.
\<close>

theorem file_extension_rule:
  assumes "CHR ''/'' \<notin> set name"
  shows "file_extension name = (if dotted_stem name then extension_by_last_dot name else '''')
    \<and> file_extension ''report.final.PDF'' = ''.pdf''
    \<and> file_extension ''README'' = ''''"
proof (intro conjI)
  show "file_extension ''report.final.PDF'' = ''.pdf''" by code_simp
  show "file_extension ''README'' = ''''" by code_simp
  show "file_extension name = (if dotted_stem name then extension_by_last_dot name else '''')"
  proof (cases "CHR ''.'' \<in> set name")
    case False
    then have "\<not> dotted_stem name" by (auto simp: dotted_stem_def)
    moreover from False have "file_extension name = ''''"
      by (simp add: file_extension_def splitext_no_dot lower_def)
    ultimately show ?thesis by simp
  next
    case True
    then obtain stem ext where se: "name = stem @ CHR ''.'' # ext" "CHR ''.'' \<notin> set ext"
      by (meson split_list_last)
    have uniq: "stem' = stem \<and> ext' = ext"
      if "name = stem' @ ''.'' @ ext'" "CHR ''.'' \<notin> set ext'" for stem' ext'
    proof -
      have "rfind name CHR ''.'' = int (length stem')" using that by (simp add: rfind_last)
      moreover have "rfind name CHR ''.'' = int (length stem)" using se by (simp add: rfind_last)
      ultimately have "length stem' = length stem" by simp
      with that se show ?thesis by simp
    qed
    have cond: "dotted_stem name \<longleftrightarrow> (\<exists>c\<in>set stem. c \<noteq> CHR ''.'')"
    proof
      assume "dotted_stem name"
      then obtain stem' ext' where d: "name = stem' @ ''.'' @ ext'" "CHR ''.'' \<notin> set ext'"
          "\<exists>c\<in>set stem'. c \<noteq> CHR ''.''"
        unfolding dotted_stem_def by blast
      with uniq have "stem' = stem" by blast
      with d show "\<exists>c\<in>set stem. c \<noteq> CHR ''.''" by simp
    next
      assume "\<exists>c\<in>set stem. c \<noteq> CHR ''.''"
      with se have "name = stem @ ''.'' @ ext \<and> CHR ''.'' \<notin> set ext \<and> (\<exists>c\<in>set stem. c \<noteq> CHR ''.'')"
        by simp
      then show "dotted_stem name" unfolding dotted_stem_def by blast
    qed
    have sp: "splitext name =
       (if \<exists>c\<in>set stem. c \<noteq> CHR ''.'' then (stem, CHR ''.'' # ext) else (name, []))"
      using assms se splitext_dotted [of stem ext] by simp
    have "extension_by_last_dot name = lower (CHR ''.'' # ext)"
      using True se by (simp add: extension_by_last_dot_def rfind_last slice_from_def)
    with sp show ?thesis unfolding cond by (simp add: file_extension_def lower_def)
  qed
qed

theorem file_extension_rule_witness:
  "CHR ''/'' \<notin> set ''Archive.TAR.Gz'' \<and> dotted_stem ''Archive.TAR.Gz''
   \<and> file_extension ''Archive.TAR.Gz'' = ''.gz''"
proof -
  have sep: "CHR ''/'' \<notin> set ''Archive.TAR.Gz''" by simp
  have "''Archive.TAR.Gz'' = ''Archive.TAR'' @ ''.'' @ ''Gz'' \<and> CHR ''.'' \<notin> set ''Gz''
      \<and> (\<exists>c\<in>set ''Archive.TAR''. c \<noteq> CHR ''.'')"
    by simp
  then have stem: "dotted_stem ''Archive.TAR.Gz''" unfolding dotted_stem_def by blast
  have "extension_by_last_dot ''Archive.TAR.Gz'' = ''.gz''" by code_simp
  with sep stem file_extension_rule [OF sep] show ?thesis by simp
qed

text \<open>The claim as it was worded takes the part from the last full stop on for every
  name; \<open>.bashrc\<close> has a full stop and its recorded extension is empty.\<close>

theorem file_extension_leading_dot_counterexample:
  "CHR ''.'' \<in> set ''.bashrc'' \<and> extension_by_last_dot ''.bashrc'' = ''.bashrc''
   \<and> file_extension ''.bashrc'' = ''''"
proof (intro conjI)
  show "CHR ''.'' \<in> set ''.bashrc''" by simp
  show "extension_by_last_dot ''.bashrc'' = ''.bashrc''" by code_simp
  show "file_extension ''.bashrc'' = ''''" by code_simp
qed

subsection \<open>Hashing and listing\<close>

lemma read_chunks_all: "0 < n \<Longrightarrow> read_chunks n f h = h @ f"
proof (induction n f h rule: read_chunks.induct)
  case (1 n f h)
  show ?case
  proof (cases "take n f = []")
    case True
    with "1.prems" have "f = []" by (cases f) auto
    then show ?thesis by (subst read_chunks.simps) simp
  next
    case False
    have "read_chunks n f h = read_chunks n (drop n f) (h @ take n f)"
      using False by (subst read_chunks.simps) (simp add: Let_def)
    also have "\<dots> = (h @ take n f) @ drop n f"
      using False "1.prems" by (intro "1.IH") simp_all
    finally show ?thesis by simp
  qed
qed

text \<open>
  C6.  Two readable files with identical bytes get the same hash string, whatever their
  names and places (the paths may differ, and so may the file systems), for every chunk
  size; with the chunk size the program uses, the string is the digest of the content.
\<close>

theorem calculate_full_hash_content:
  assumes "lookup fs1 p1 = Some (File True content)"
    and "lookup fs2 p2 = Some (File True content)"
  shows "calculate_full_hash md5 fs1 p1 chunk_size = calculate_full_hash md5 fs2 p2 chunk_size
    \<and> calculate_full_hash md5 fs1 p1 default_chunk_size = Inr (md5 content)"
  using assms
  by (simp add: calculate_full_hash_def open_rb_def read_chunks_all default_chunk_size_def)

theorem calculate_full_hash_content_witness:
  "lookup demo_fs [''folder1'', ''sub'', ''(A1)copy.TXT''] = Some (File True [104, 101, 108, 108, 111])
   \<and> lookup demo_fs [''folder2'', ''y.txt''] = Some (File True [104, 101, 108, 108, 111])
   \<and> calculate_full_hash stand_in_digest demo_fs [''folder1'', ''sub'', ''(A1)copy.TXT''] 2
       = calculate_full_hash stand_in_digest demo_fs [''folder2'', ''y.txt''] 2
   \<and> calculate_full_hash stand_in_digest demo_fs [''folder1'', ''sub'', ''(A1)copy.TXT''] default_chunk_size
       = Inr (stand_in_digest [104, 101, 108, 108, 111])"
proof -
  have a: "lookup demo_fs [''folder1'', ''sub'', ''(A1)copy.TXT''] = Some (File True [104, 101, 108, 108, 111])"
    by (simp add: demo_fs_def)
  have b: "lookup demo_fs [''folder2'', ''y.txt''] = Some (File True [104, 101, 108, 108, 111])"
    by (simp add: demo_fs_def)
  from a b calculate_full_hash_content [OF a b, of stand_in_digest 2] show ?thesis by simp
qed





subsection \<open>What the report builder writes\<close>

lemma fold_max_uniform:
  "\<forall>x\<in>set xs. x = n \<Longrightarrow> xs \<noteq> [] \<Longrightarrow> a \<le> n \<Longrightarrow> fold max xs a = (n::nat)"
proof (induction xs arbitrary: a)
  case Nil
  then show ?case by simp
next
  case (Cons x xs)
  show ?case
  proof (cases "xs = []")
    case True
    with Cons.prems show ?thesis by (simp add: max_def)
  next
    case False
    with Cons.prems have "fold max xs (max x a) = n" by (intro Cons.IH) auto
    then show ?thesis by simp
  qed
qed

lemma max_column_six: "six_wide (rows w) \<Longrightarrow> max_column w = 6"
  unfolding max_column_def six_wide_def by (intro fold_max_uniform) auto

lemma pad_noop: "n \<le> length xs \<Longrightarrow> pad n x xs = xs"
  by (simp add: pad_def)

lemma update_cell_last:
  assumes "0 < c" "c \<le> length x"
  shows "update_cell (Suc (length R)) c f (w\<lparr>rows := R @ [x]\<rparr>)
       = w\<lparr>rows := R @ [x[c - 1 := f (x ! (c - 1))]]\<rparr>"
  using assms by (simp add: update_cell_def pad_noop Let_def)

lemma update_row_last:
  assumes "six_wide (R @ [x])"
  shows "update_row (Suc (length R)) g (w\<lparr>rows := R @ [x]\<rparr>) = w\<lparr>rows := R @ [map g x]\<rparr>"
proof -
  from assms have "max_column (w\<lparr>rows := R @ [x]\<rparr>) = 6" by (intro max_column_six) simp
  moreover from assms have "length x = 6" by (simp add: six_wide_def)
  ultimately show ?thesis by (simp add: update_row_def pad_noop Let_def)
qed

lemma write_row_styled:
  assumes "six_wide (rows w)"
  shows "write_row counts (row_values r) w = Inr (w\<lparr>rows := rows w @ [styled_row counts r]\<rparr>)"
proof -
  let ?x = "map new_cell (row_values r)"
  have len: "length ?x = 6" by (simp add: row_values_def)
  have w1: "ws_append (row_values r) w = w\<lparr>rows := rows w @ [?x]\<rparr>" by (simp add: ws_append_def)
  have rn: "max_row (w\<lparr>rows := rows w @ [?x]\<rparr>) = Suc (length (rows w))" by (simp add: max_row_def)
  have wide: "six_wide (rows w @ [y])" if "length y = 6" for y
    using assms that by (auto simp: six_wide_def)
  have n4: "py_nth (row_values r) 4 = Inr (Str (Folder r))" by (simp add: py_nth_def row_values_def)
  have n1: "py_nth (row_values r) 1 = Inr (Str (File_Hash r))" by (simp add: py_nth_def row_values_def)
  show ?thesis
    unfolding write_row_def w1 Let_def rn n4 n1
    by (simp add: update_cell_last update_row_last wide len row_values_def styled_row_def
        styled_def new_cell_def)
qed

lemma write_rows_styled:
  "six_wide (rows w) \<Longrightarrow>
   write_rows counts (dataframe_to_rows d) w = Inr (w\<lparr>rows := rows w @ map (styled_row counts) d\<rparr>)"
proof (induction d arbitrary: w)
  case Nil
  then show ?case by (simp add: dataframe_to_rows_def)
next
  case (Cons r d)
  let ?w1 = "w\<lparr>rows := rows w @ [styled_row counts r]\<rparr>"
  from Cons.prems have "six_wide (rows ?w1)" by (auto simp: six_wide_def styled_row_def)
  then have "write_rows counts (dataframe_to_rows d) ?w1
      = Inr (?w1\<lparr>rows := rows ?w1 @ map (styled_row counts) d\<rparr>)" by (rule Cons.IH)
  with Cons.prems show ?case
    using write_row_styled [of w counts r] by (simp add: dataframe_to_rows_def)
qed

lemma header_sheet:
  "update_row 1 header_style (ws_append headers (new_worksheet\<lparr>title := t\<rparr>))
   = \<lparr>title = t, rows = [header_row], column_width = Map.empty\<rparr>"
proof -
  have "six_wide ([] @ [map new_cell headers])" by (simp add: six_wide_def headers_def)
  from update_row_last [OF this, of header_style "new_worksheet\<lparr>title := t\<rparr>"]
  show ?thesis by (simp add: ws_append_def new_worksheet_def header_row_def)
qed

lemma py_max_nonempty: "xs \<noteq> [] \<Longrightarrow> py_max xs = Inr (Max (set xs))"
proof (cases xs)
  case Nil
  assume "xs \<noteq> []"
  with Nil show ?thesis by simp
next
  case (Cons a list)
  then show ?thesis using Max.set_eq_fold [of a list] by simp
qed

lemma set_widths_result:
  assumes "distinct (map (\<lambda>nc. column_letter (fst nc)) cols)"
    and "\<forall>nc\<in>set cols. snd nc \<noteq> []"
  shows "\<exists>w'. set_widths cols w = Inr w' \<and> rows w' = rows w \<and> title w' = title w
      \<and> (\<forall>nc\<in>set cols. column_width w' (column_letter (fst nc))
            = Some (Max (set (map rendered_length (snd nc))) + 2))
      \<and> (\<forall>k. k \<notin> (\<lambda>nc. column_letter (fst nc)) ` set cols \<longrightarrow> column_width w' k = column_width w k)"
  using assms
proof (induction cols arbitrary: w)
  case Nil
  then show ?case by simp
next
  case (Cons nc cols)
  obtain n col where nc: "nc = (n, col)" by (cases nc)
  let ?m = "Max (set (map rendered_length col))"
  let ?w1 = "w\<lparr>column_width := (column_width w)(column_letter n \<mapsto> ?m + 2)\<rparr>"
  from Cons.prems nc have ne: "col \<noteq> []" by simp
  then have mx: "py_max (map (\<lambda>c. length (py_str (cvalue c))) col) = Inr ?m"
    using py_max_nonempty [of "map rendered_length col"] by (simp add: rendered_length_def [abs_def])
  from Cons.prems have d: "distinct (map (\<lambda>nc. column_letter (fst nc)) cols)"
    and e: "\<forall>nc\<in>set cols. snd nc \<noteq> []" by simp_all
  from Cons.IH [OF d e, of ?w1] obtain w' where w':
    "set_widths cols ?w1 = Inr w'" "rows w' = rows ?w1" "title w' = title ?w1"
    "\<forall>nc\<in>set cols. column_width w' (column_letter (fst nc))
        = Some (Max (set (map rendered_length (snd nc))) + 2)"
    "\<forall>k. k \<notin> (\<lambda>nc. column_letter (fst nc)) ` set cols \<longrightarrow> column_width w' k = column_width ?w1 k"
    by blast
  from Cons.prems nc have fresh: "column_letter n \<notin> (\<lambda>nc. column_letter (fst nc)) ` set cols"
    by auto
  with w'(5) have here: "column_width w' (column_letter n) = Some (?m + 2)" by simp
  have step: "set_widths (nc # cols) w = Inr w'" using nc mx w'(1) by simp
  have others: "\<forall>k. k \<notin> (\<lambda>nc. column_letter (fst nc)) ` set (nc # cols) \<longrightarrow> column_width w' k = column_width w k"
    using w'(5) nc by auto
  have all: "\<forall>nc'\<in>set (nc # cols). column_width w' (column_letter (fst nc'))
        = Some (Max (set (map rendered_length (snd nc'))) + 2)"
    using w'(4) here nc by auto
  from step w'(2,3) all others show ?case by auto
qed

lemma columns_six:
  assumes "six_wide (rows w)"
  shows "columns w = map (\<lambda>c. (c + 1, map (\<lambda>cells. cells ! c) (rows w))) [0..<6]"
proof -
  from assms have mc: "max_column w = 6" by (rule max_column_six)
  from assms have ne: "rows w \<noteq> []" and len: "\<forall>r\<in>set (rows w). length r = 6"
    by (simp_all add: six_wide_def)
  have "map (\<lambda>cells. pad 6 (new_cell NoneValue) cells ! c) (rows w) = map (\<lambda>cells. cells ! c) (rows w)" for c
    using len by (intro map_cong refl) (simp add: pad_noop)
  with ne mc show ?thesis by (simp add: columns_def)
qed

lemma first_letters:
  "map (\<lambda>c. column_letter (c + 1)) [0..<6] = [''A'', ''B'', ''C'', ''D'', ''E'', ''F'']"
  by code_simp

lemma widths_six:
  assumes "six_wide (rows w)"
  shows "\<exists>w'. set_widths (columns w) w = Inr w' \<and> rows w' = rows w \<and> title w' = title w
      \<and> (\<forall>c<6. column_width w' (column_letter (c + 1))
            = Some (Max (set (map (\<lambda>cells. rendered_length (cells ! c)) (rows w))) + 2))
      \<and> (\<forall>k. k \<notin> set [''A'', ''B'', ''C'', ''D'', ''E'', ''F''] \<longrightarrow> column_width w' k = column_width w k)"
proof -
  let ?cols = "columns w"
  have cols: "?cols = map (\<lambda>c. (c + 1, map (\<lambda>cells. cells ! c) (rows w))) [0..<6]"
    using assms by (rule columns_six)
  have letters: "map (\<lambda>nc. column_letter (fst nc)) ?cols = [''A'', ''B'', ''C'', ''D'', ''E'', ''F'']"
    unfolding cols map_map comp_def fst_conv by (rule first_letters)
  then have dist: "distinct (map (\<lambda>nc. column_letter (fst nc)) ?cols)" by simp
  from assms have "rows w \<noteq> []" by (simp add: six_wide_def)
  then have ne: "\<forall>nc\<in>set ?cols. snd nc \<noteq> []" unfolding cols by auto
  from set_widths_result [OF dist ne, of w] obtain w' where w':
    "set_widths ?cols w = Inr w'" "rows w' = rows w" "title w' = title w"
    "\<forall>nc\<in>set ?cols. column_width w' (column_letter (fst nc))
        = Some (Max (set (map rendered_length (snd nc))) + 2)"
    "\<forall>k. k \<notin> (\<lambda>nc. column_letter (fst nc)) ` set ?cols \<longrightarrow> column_width w' k = column_width w k"
    by blast
  have "column_width w' (column_letter (c + 1))
      = Some (Max (set (map (\<lambda>cells. rendered_length (cells ! c)) (rows w))) + 2)" if "c < 6" for c
  proof -
    from that have "(c + 1, map (\<lambda>cells. cells ! c) (rows w)) \<in> set ?cols" unfolding cols by auto
    with w'(4) have "column_width w' (column_letter (c + 1))
      = Some (Max (set (map rendered_length (map (\<lambda>cells. cells ! c) (rows w)))) + 2)" by fastforce
    then show ?thesis by (simp add: comp_def)
  qed
  moreover have "(\<lambda>nc. column_letter (fst nc)) ` set ?cols = set [''A'', ''B'', ''C'', ''D'', ''E'', ''F'']"
    using letters by (metis set_map)
  ultimately show ?thesis using w'(1,2,3,5) by auto
qed




lemma six_wide_report: "six_wide (header_row # map (styled_row counts) d)"
  by (auto simp: six_wide_def header_row_def headers_def styled_row_def)

lemma report_built:
  "\<exists>e'. generate_styled_excel_report srt path e = Inr e'
     \<and> file_list e' = file_list e
     \<and> df e' = srt (file_list e)
     \<and> hash_counts e' = fold count_hash (column_File_Hash (df e')) Map.empty
     \<and> title (ws e') = ''File List Report''
     \<and> rows (ws e') = header_row # map (styled_row (hash_counts e')) (df e')
     \<and> (\<forall>c<6. column_width (ws e') (column_letter (c + 1))
            = Some (Max (set (map (\<lambda>cells. rendered_length (cells ! c)) (rows (ws e')))) + 2))
     \<and> (\<forall>k. k \<notin> set [''A'', ''B'', ''C'', ''D'', ''E'', ''F''] \<longrightarrow> column_width (ws e') k = None)
     \<and> disk e' = (disk e)(path \<mapsto> ws e')"
proof -
  let ?d = "srt (file_list e)"
  let ?counts = "fold count_hash (column_File_Hash ?d) Map.empty"
  let ?w5 = "\<lparr>title = ''File List Report'', rows = [header_row], column_width = Map.empty\<rparr>"
  let ?w6 = "\<lparr>title = ''File List Report'', rows = header_row # map (styled_row ?counts) ?d,
               column_width = Map.empty\<rparr>"
  let ?e5 = "e\<lparr>df := ?d, hash_counts := ?counts, ws := ?w5\<rparr>"
  have "six_wide (rows ?w5)" using six_wide_report [of ?counts "[]"] by simp
  then have rows6: "write_rows ?counts (dataframe_to_rows ?d) ?w5 = Inr ?w6"
    using write_rows_styled [of ?w5 ?counts ?d] by simp
  have wide6: "six_wide (rows ?w6)" using six_wide_report [of ?counts ?d] by simp
  from widths_six [OF wide6] obtain w7 where w7:
    "set_widths (columns ?w6) ?w6 = Inr w7" "rows w7 = rows ?w6" "title w7 = title ?w6"
    "\<forall>c<6. column_width w7 (column_letter (c + 1))
        = Some (Max (set (map (\<lambda>cells. rendered_length (cells ! c)) (rows ?w6))) + 2)"
    "\<forall>k. k \<notin> set [''A'', ''B'', ''C'', ''D'', ''E'', ''F''] \<longrightarrow> column_width w7 k = column_width ?w6 k"
    by blast
  let ?e7 = "?e5\<lparr>ws := w7, disk := (disk ?e5)(path \<mapsto> w7)\<rparr>"
  have run: "generate_styled_excel_report srt path e = Inr ?e7"
    unfolding generate_styled_excel_report_def Let_def
    by (simp add: header_sheet [unfolded One_nat_def] rows6 w7(1))
  have "file_list ?e7 = file_list e" "df ?e7 = ?d" "hash_counts ?e7 = ?counts" "ws ?e7 = w7"
    "disk ?e7 = (disk e)(path \<mapsto> w7)" by simp_all
  moreover have "title w7 = ''File List Report''" using w7(3) by simp
  moreover have "rows w7 = header_row # map (styled_row ?counts) ?d" using w7(2) by simp
  moreover have "\<forall>c<6. column_width w7 (column_letter (c + 1))
        = Some (Max (set (map (\<lambda>cells. rendered_length (cells ! c)) (rows w7))) + 2)"
    using w7(4) w7(2) by simp
  moreover have "\<forall>k. k \<notin> set [''A'', ''B'', ''C'', ''D'', ''E'', ''F''] \<longrightarrow> column_width w7 k = None"
    using w7(5) by simp
  ultimately show ?thesis using run by (intro exI [of _ ?e7]) (simp only: simp_thms)
qed

lemma stable_sort_contract: "sort_values_contract stable_sort"
  by (simp add: sort_values_contract_def stable_sort_def)


lemma contract_length: "sort_values_contract srt \<Longrightarrow> length (srt d) = length d"
  unfolding sort_values_contract_def by (metis size_mset)






lemma no_files_listed:
  "list_all_files md5 empty_roots [''folder1''] ''Folder1'' = Inr []
   \<and> list_all_files md5 empty_roots [''folder2''] ''Folder2'' = Inr []"
  by (simp add: list_all_files_def os_walk_def empty_roots_def)

subsection \<open>The claims about the report\<close>








text \<open>
  C8.  When the record list is empty, the report is built without error, holds the
  header row and no data row, and is saved under the path given.
\<close>

theorem empty_list_report:
  assumes "sort_values_contract srt" and "file_list e = []"
  shows "\<exists>e'. generate_styled_excel_report srt path e = Inr e'
     \<and> rows (ws e') = [header_row]
     \<and> map cvalue header_row = headers
     \<and> data_rows (ws e') = []
     \<and> disk e' path = Some (ws e')"
proof -
  from report_built [of srt path e] obtain e' where e':
    "generate_styled_excel_report srt path e = Inr e'"
    "df e' = srt (file_list e)"
    "rows (ws e') = header_row # map (styled_row (hash_counts e')) (df e')"
    "disk e' = (disk e)(path \<mapsto> ws e')"
    by blast
  from assms e'(2) have "length (df e') = 0" by (simp add: contract_length)
  then have "df e' = []" by simp
  with e'(3) have "rows (ws e') = [header_row]" "data_rows (ws e') = []"
    by (simp_all add: data_rows_def)
  moreover have "map cvalue header_row = headers"
    by (simp add: header_row_def header_style_def new_cell_def comp_def)
  moreover from e'(4) have "disk e' path = Some (ws e')" by simp
  ultimately show ?thesis using e'(1) by blast
qed

theorem empty_list_report_witness:
  "sort_values_contract stable_sort
   \<and> file_list (start_env []) = []
   \<and> main stand_in_digest stable_sort empty_roots (start_env [])
       = generate_styled_excel_report stable_sort ''all_files_report.xlsx'' (start_env [])
   \<and> (\<exists>e'. generate_styled_excel_report stable_sort ''all_files_report.xlsx'' (start_env []) = Inr e'
     \<and> rows (ws e') = [header_row]
     \<and> map cvalue header_row = headers
     \<and> data_rows (ws e') = []
     \<and> disk e' ''all_files_report.xlsx'' = Some (ws e'))"
proof (intro conjI)
  show "sort_values_contract stable_sort" by (rule stable_sort_contract)
  show empty: "file_list (start_env []) = []" by (simp add: start_env_def)
  show "main stand_in_digest stable_sort empty_roots (start_env [])
       = generate_styled_excel_report stable_sort ''all_files_report.xlsx'' (start_env [])"
    by (simp add: main_def no_files_listed start_env_def)
  show "\<exists>e'. generate_styled_excel_report stable_sort ''all_files_report.xlsx'' (start_env []) = Inr e'
     \<and> rows (ws e') = [header_row]
     \<and> map cvalue header_row = headers
     \<and> data_rows (ws e') = []
     \<and> disk e' ''all_files_report.xlsx'' = Some (ws e')"
    by (rule empty_list_report [OF stable_sort_contract empty])
qed





end
